theory Spec2Isabelle
  imports Complex_Main "HOL-Library.Word"
begin

unbundle bit_operations_syntax

section \<open>The afterstate learner of agent.h (class weight_agent)\<close>

text \<open>
  The development embeds \<^verbatim>\<open>weight_agent\<close> of \<^verbatim>\<open>src/agent.h\<close>: the feature
  extractor \<^verbatim>\<open>get_tuple\<close>, the network estimate \<^verbatim>\<open>get_V\<close>, the two update loops
  \<^verbatim>\<open>update_weight\<close> and \<^verbatim>\<open>last_update\<close>, the decision routine \<^verbatim>\<open>take_action\<close> and
  the persistence routines \<^verbatim>\<open>load_weights\<close> and \<^verbatim>\<open>save_weights\<close>.

  Conventions of the embedding.
  \<^item> C++ \<^verbatim>\<open>int\<close> and \<^verbatim>\<open>board::reward\<close> are \<open>int\<close>: no claim depends on 32-bit
    overflow, which the source never provokes on nibble-valued grids.
  \<^item> A finite C++ \<^verbatim>\<open>float\<close> is the real number it denotes. Comparing two floats is
    exact, so \<^verbatim>\<open>>\<close> is the order of the reals, and the constants -1.0 and 0 are
    themselves. The float operations that round, \<^verbatim>\<open>+\<close>, \<^verbatim>\<open>-\<close>, \<^verbatim>\<open>*\<close> and the
    conversion from \<^verbatim>\<open>int\<close>, are parameters (record \<open>float_arith\<close>): nothing is
    assumed about what they return, so every statement about an arbitrary \<open>A\<close> holds for
    the rounded binary32 operations of the machine. Infinities and NaN are not
    modelled.
  \<^item> \<^verbatim>\<open>std::vector\<close> is a list. An index outside the vector is undefined behaviour in
    C++; the model returns \<open>None\<close> there, so every read and write of the source that
    can leave its vector is a branch of the model.
  \<^item> \<^verbatim>\<open>board.h\<close>, \<^verbatim>\<open>action.h\<close> and \<^verbatim>\<open>weight.h\<close> are not part of the sources at hand.
    The board operations the agent calls are parameters (record \<open>board_ops\<close>), and so
    are the two stream operators of \<^verbatim>\<open>weight\<close> that the persistence routines call.
\<close>

subsection \<open>Grids\<close>

text \<open>\<^verbatim>\<open>board::row\<close> is an array of 4 cells, \<^verbatim>\<open>board::grid\<close> an array of 4 rows.\<close>

datatype row = Row int int int int

datatype grid = Grid row row row row

text \<open>\<^verbatim>\<open>row[k]\<close> and \<^verbatim>\<open>state[i]\<close>; the source only uses the constant indices 0..3.\<close>

fun row_at :: "row \<Rightarrow> nat \<Rightarrow> int" where
  "row_at (Row a b c d) k = (if k = 0 then a else if k = 1 then b else if k = 2 then c else d)"

fun grid_at :: "grid \<Rightarrow> nat \<Rightarrow> row" where
  "grid_at (Grid r0 r1 r2 r3) i =
     (if i = 0 then r0 else if i = 1 then r1 else if i = 2 then r2 else r3)"

fun cells :: "grid \<Rightarrow> int list" where
  "cells (Grid (Row a0 a1 a2 a3) (Row b0 b1 b2 b3) (Row c0 c1 c2 c3) (Row d0 d1 d2 d3)) =
     [a0, a1, a2, a3, b0, b1, b2, b3, c0, c1, c2, c3, d0, d1, d2, d3]"

text \<open>The grid invariant of the board: every cell is a nibble.\<close>

definition grid_ok :: "grid \<Rightarrow> bool" where
  "grid_ok g = list_all (\<lambda>c. 0 \<le> c \<and> c \<le> 15) (cells g)"

subsection \<open>Feature extraction: get_tuple (agent.h 147-170)\<close>

text \<open>
  The loop over the four rows pushes one index per row onto \<^verbatim>\<open>tuples\<close> and one cell
  onto each of \<^verbatim>\<open>col1\<close> .. \<^verbatim>\<open>col4\<close>. The loop state is the five vectors.
\<close>

type_synonym tuple_acc = "int list \<times> int list \<times> int list \<times> int list \<times> int list"

fun get_tuple_rows :: "grid \<Rightarrow> nat list \<Rightarrow> tuple_acc \<Rightarrow> tuple_acc" where
  "get_tuple_rows state [] acc = acc"
| "get_tuple_rows state (i # is) (tuples, col1, col2, col3, col4) =
     (let r = grid_at state i;
          a = row_at r 0;
          b = row_at r 1;
          c = row_at r 2;
          d = row_at r 3
      in get_tuple_rows state is
           (tuples @ [16 * 16 * 16 * a + 16 * 16 * b + 16 * c + d],
            col1 @ [a], col2 @ [b], col3 @ [c], col4 @ [d]))"

definition col_index :: "int list \<Rightarrow> int" where
  "col_index col = 16 * 16 * 16 * (col ! 0) + 16 * 16 * (col ! 1) + 16 * (col ! 2) + col ! 3"

definition get_tuple :: "grid \<Rightarrow> int list" where
  "get_tuple state =
     (case get_tuple_rows state [0, 1, 2, 3] ([], [], [], [], []) of
        (tuples, col1, col2, col3, col4) \<Rightarrow>
          tuples @ [col_index col1] @ [col_index col2] @ [col_index col3] @ [col_index col4])"

subsection \<open>The weight tables\<close>

text \<open>
  \<^verbatim>\<open>std::vector<weight> net\<close>: a vector of tables, each a vector of floats.
  \<^verbatim>\<open>net[i][j]\<close> with \<^verbatim>\<open>int j\<close> is defined only inside both vectors.
\<close>

type_synonym net = "real list list"

definition in_table :: "net \<Rightarrow> nat \<Rightarrow> int \<Rightarrow> bool" where
  "in_table nt i j = (i < length nt \<and> 0 \<le> j \<and> nat j < length (nt ! i))"

definition net_at :: "net \<Rightarrow> nat \<Rightarrow> int \<Rightarrow> real" where
  "net_at nt i j = nt ! i ! nat j"

definition net_set :: "net \<Rightarrow> nat \<Rightarrow> int \<Rightarrow> real \<Rightarrow> net" where
  "net_set nt i j v = nt[i := (nt ! i)[nat j := v]]"

text \<open>The eight indices of the two loops \<^verbatim>\<open>for (int i = 0; i < 8; i++)\<close>.\<close>

definition table_indices :: "nat list" where
  "table_indices = [0, 1, 2, 3, 4, 5, 6, 7]"

text \<open>\<^verbatim>\<open>init_weights\<close> (174-183): eight tables of 65536 entries are appended.\<close>

definition table_size :: nat where
  "table_size = 65536"

definition init_net :: "net \<Rightarrow> net" where
  "init_net nt = nt @ replicate 8 (replicate table_size 0)"

definition wf_net :: "net \<Rightarrow> bool" where
  "wf_net nt = (length nt = 8 \<and> list_all (\<lambda>t. length t = table_size) nt)"

definition tuples_ok :: "int list \<Rightarrow> bool" where
  "tuples_ok ts = (length ts = 8 \<and> list_all (\<lambda>x. 0 \<le> x \<and> x \<le> 65535) ts)"

subsection \<open>Float arithmetic\<close>

text \<open>
  The four float operations of the source that round their result: the sum in
  \<^verbatim>\<open>result += ...\<close>, \<^verbatim>\<open>Reward + V\<close> and \<^verbatim>\<open>net[i][..] + ...\<close>; the difference in
  \<^verbatim>\<open>st_1_r_V - s_V\<close> and \<^verbatim>\<open>0 - s_V\<close>; the product \<^verbatim>\<open>alpha * (...)\<close>; and the
  conversion of the \<^verbatim>\<open>int\<close> \<^verbatim>\<open>Reward\<close> in \<^verbatim>\<open>Reward + V\<close>. Each operation of the source
  is one application of the corresponding parameter: every operation rounds on its own,
  to \<^verbatim>\<open>float\<close>, as the source's types say.
\<close>

record float_arith =
  f_add :: "real \<Rightarrow> real \<Rightarrow> real"
  f_sub :: "real \<Rightarrow> real \<Rightarrow> real"
  f_mul :: "real \<Rightarrow> real \<Rightarrow> real"
  f_of_int :: "int \<Rightarrow> real"

subsection \<open>The estimate: get_V (agent.h 140-146)\<close>

fun get_V_loop :: "float_arith \<Rightarrow> net \<Rightarrow> int list \<Rightarrow> nat list \<Rightarrow> real \<Rightarrow> real option" where
  "get_V_loop A nt tuples [] result = Some result"
| "get_V_loop A nt tuples (i # is) result =
     (if i < length tuples \<and> in_table nt i (tuples ! i)
      then get_V_loop A nt tuples is (f_add A result (net_at nt i (tuples ! i)))
      else None)"

definition get_V :: "float_arith \<Rightarrow> net \<Rightarrow> int list \<Rightarrow> real option" where
  "get_V A nt tuples = get_V_loop A nt tuples table_indices 0"

subsection \<open>The agent and its two update loops (agent.h 128-139, 202-208)\<close>

record agent =
  net :: net
  alpha :: real
  s_V :: real
  train :: bool
  s_tuples :: "int list"

text \<open>
  Both loops assign \<^verbatim>\<open>net[i][s_tuples[i]] + alpha * (target - s_V)\<close> to
  \<^verbatim>\<open>net[i][s_tuples[i]]\<close> for i = 0..7, with \<^verbatim>\<open>alpha\<close>, \<^verbatim>\<open>s_V\<close> and \<^verbatim>\<open>s_tuples\<close>
  untouched by the loop: a float difference, a float product and a float sum. Each
  step reads the entry of the current tables and writes it back. The target of
  \<^verbatim>\<open>last_update\<close> is the literal 0.
\<close>

fun update_loop ::
  "float_arith \<Rightarrow> net \<Rightarrow> int list \<Rightarrow> real \<Rightarrow> real \<Rightarrow> real \<Rightarrow> nat list \<Rightarrow> net option" where
  "update_loop A nt tuples al target sv [] = Some nt"
| "update_loop A nt tuples al target sv (i # is) =
     (if i < length tuples \<and> in_table nt i (tuples ! i)
      then update_loop A
             (net_set nt i (tuples ! i)
                (f_add A (net_at nt i (tuples ! i)) (f_mul A al (f_sub A target sv))))
             tuples al target sv is
      else None)"

definition update_weight :: "float_arith \<Rightarrow> agent \<Rightarrow> real \<Rightarrow> agent option" where
  "update_weight A ag st_1_r_V =
     (case update_loop A (net ag) (s_tuples ag) (alpha ag) st_1_r_V (s_V ag) table_indices of
        None \<Rightarrow> None
      | Some nt \<Rightarrow> Some (ag\<lparr>net := nt\<rparr>))"

definition last_update :: "float_arith \<Rightarrow> agent \<Rightarrow> agent option" where
  "last_update A ag =
     (case update_loop A (net ag) (s_tuples ag) (alpha ag) 0 (s_V ag) table_indices of
        None \<Rightarrow> None
      | Some nt \<Rightarrow> Some (ag\<lparr>net := nt\<rparr>))"

subsection \<open>The board operations and the actions\<close>

text \<open>
  The three board members the agent calls, as parameters over any board type \<open>'b\<close>:
  \<^verbatim>\<open>slide\<close> mutates its board and returns the reward or -1, here the pair of the reward
  and the board after; \<^verbatim>\<open>value\<close> reads the total; \<^verbatim>\<open>state_plun\<close>, called on a copy,
  returns the grid after the move.
\<close>

record 'b board_ops =
  slide :: "'b \<Rightarrow> int \<Rightarrow> int \<times> 'b"
  board_value :: "'b \<Rightarrow> int"
  state_plun :: "'b \<Rightarrow> int \<Rightarrow> grid"

text \<open>\<^verbatim>\<open>action::slide(op)\<close> and the default-constructed \<^verbatim>\<open>action()\<close>.\<close>

datatype action = action_slide int | action_none

text \<open>The member \<^verbatim>\<open>opcode\<close>, set to {0, 1, 2, 3} by the constructor and never written.\<close>

definition opcode :: "int list" where
  "opcode = [0, 1, 2, 3]"

definition legal :: "'b board_ops \<Rightarrow> 'b \<Rightarrow> int \<Rightarrow> bool" where
  "legal B before op = (fst (slide B before op) \<noteq> - 1)"

text \<open>\<^verbatim>\<open>Reward = tmp.value() - before.value()\<close> after \<^verbatim>\<open>tmp.slide(op)\<close> (lines 95-102).\<close>

definition slide_reward :: "'b board_ops \<Rightarrow> 'b \<Rightarrow> int \<Rightarrow> int" where
  "slide_reward B before op = board_value B (snd (slide B before op)) - board_value B before"

text \<open>
  \<^verbatim>\<open>float r_V = Reward + V\<close> for one direction (lines 103-106): the \<^verbatim>\<open>int\<close> is
  converted to float and the two floats are added.
\<close>

definition candidate :: "float_arith \<Rightarrow> 'b board_ops \<Rightarrow> 'b \<Rightarrow> net \<Rightarrow> int \<Rightarrow> real option" where
  "candidate A B before nt op =
     (case get_V A nt (get_tuple (state_plun B before op)) of
        None \<Rightarrow> None
      | Some V \<Rightarrow> Some (f_add A (f_of_int A (slide_reward B before op)) V))"

subsection \<open>The decision: take_action (agent.h 88-127)\<close>

text \<open>
  The search loop carries \<^verbatim>\<open>op_best\<close> and \<^verbatim>\<open>r_V_best\<close>. The local \<^verbatim>\<open>best_state\<close> is
  assigned in the loop and overwritten at line 118 before any read, so it is not part of
  the loop state.
\<close>

fun search ::
  "float_arith \<Rightarrow> 'b board_ops \<Rightarrow> 'b \<Rightarrow> net \<Rightarrow> int list \<Rightarrow> int \<times> real \<Rightarrow>
   (int \<times> real) option" where
  "search A B before nt [] best = Some best"
| "search A B before nt (op # ops) (op_best, r_V_best) =
     (if fst (slide B before op) = - 1 then search A B before nt ops (op_best, r_V_best)
      else case candidate A B before nt op of
             None \<Rightarrow> None
           | Some r_V \<Rightarrow>
               if r_V > r_V_best then search A B before nt ops (op, r_V)
               else search A B before nt ops (op_best, r_V_best))"

definition take_action ::
  "float_arith \<Rightarrow> 'b board_ops \<Rightarrow> 'b \<Rightarrow> agent \<Rightarrow> (action \<times> agent) option" where
  "take_action A B before ag =
     (case search A B before (net ag) opcode (- 1, - 1) of
        None \<Rightarrow> None
      | Some (op_best, r_V_best) \<Rightarrow>
          (case (if train ag then update_weight A ag r_V_best else Some ag) of
             None \<Rightarrow> None
           | Some ag1 \<Rightarrow>
               (let best_state = state_plun B before op_best;
                    tuples = get_tuple best_state
                in case get_V A (net ag1) tuples of
                     None \<Rightarrow> None
                   | Some v \<Rightarrow>
                       Some (if op_best \<noteq> - 1 then action_slide op_best else action_none,
                             ag1\<lparr>s_tuples := tuples, s_V := v, train := True\<rparr>))))"

subsection \<open>Comparing a value with the candidates of a list of directions\<close>

text \<open>
  Two ways a value \<open>r\<close> compares with the candidates of the legal directions of a list:
  above each of them, or at least each of them.
\<close>

definition beats ::
  "float_arith \<Rightarrow> 'b board_ops \<Rightarrow> 'b \<Rightarrow> net \<Rightarrow> int list \<Rightarrow> real \<Rightarrow> bool" where
  "beats A B before nt ops r =
     (\<forall>op \<in> set ops. legal B before op \<longrightarrow>
        (\<exists>c. candidate A B before nt op = Some c \<and> c < r))"

definition bounds ::
  "float_arith \<Rightarrow> 'b board_ops \<Rightarrow> 'b \<Rightarrow> net \<Rightarrow> int list \<Rightarrow> real \<Rightarrow> bool" where
  "bounds A B before nt ops r =
     (\<forall>op \<in> set ops. legal B before op \<longrightarrow>
        (\<exists>c. candidate A B before nt op = Some c \<and> c \<le> r))"

subsection \<open>When every access of take_action is inside its vector\<close>


text \<open>
  A sufficient condition on the agent and the board.
  The tables are the eight tables of 65536 entries that \<^verbatim>\<open>init_weights\<close> allocates,
  the tuples carried from the previous call (if any) are indices of such tables, and
  every grid the board hands out for the directions \<^verbatim>\<open>take_action\<close> asks about (the
  four of \<^verbatim>\<open>opcode\<close>, and -1 when the search selects nothing) holds nibbles only.
\<close>

definition agent_ok :: "agent \<Rightarrow> bool" where
  "agent_ok ag = (wf_net (net ag) \<and> (train ag \<longrightarrow> tuples_ok (s_tuples ag)))"

definition board_ok :: "'b board_ops \<Rightarrow> 'b \<Rightarrow> bool" where
  "board_ok B before = list_all (\<lambda>op. grid_ok (state_plun B before op)) (- 1 # opcode)"

subsection \<open>Persistence: load_weights and save_weights (agent.h 184-200)\<close>

text \<open>
  In this part a table entry is its object representation, the 32 bits that the stream
  copies, so that equal tables are bit-identical tables. A file is a byte sequence. The
  file system maps a path to the content of the file there, if there is one the process
  can open for reading, and says which paths the process can open for writing.
\<close>

type_synonym byte = "8 word"

type_synonym raw_table = "32 word list"

type_synonym raw_net = "raw_table list"

record filesystem =
  contents :: "string \<Rightarrow> byte list option"
  writable :: "string \<Rightarrow> bool"

text \<open>
  \<^verbatim>\<open>std::exit(-1)\<close> ends the process; it is the one way in which the two routines do
  not return.
\<close>

datatype fault = Exit_failure

text \<open>The four bytes of a 32-bit object, lowest byte first.\<close>

definition u32_bytes :: "32 word \<Rightarrow> byte list" where
  "u32_bytes w = [ucast w, ucast (drop_bit 8 w), ucast (drop_bit 16 w), ucast (drop_bit 24 w)]"

fun bytes_u32 :: "byte list \<Rightarrow> 32 word" where
  "bytes_u32 [b0, b1, b2, b3] =
     ucast b0 OR push_bit 8 (ucast b1) OR push_bit 16 (ucast b2) OR push_bit 24 (ucast b3)"
| "bytes_u32 bs = 0"

text \<open>
  \<^verbatim>\<open>in.read(p, n)\<close> copies up to \<open>n\<close> bytes of the stream over the buffer at \<^verbatim>\<open>p\<close>.
  Where the stream ends early, the bytes it still has are copied and the rest of the
  buffer keeps what it held; the source checks no stream state afterwards. The result is
  the buffer and the rest of the stream.
\<close>

definition stream_read :: "nat \<Rightarrow> byte list \<Rightarrow> byte list \<Rightarrow> byte list \<times> byte list" where
  "stream_read n buf bs = (take n bs @ drop (length (take n bs)) buf, drop n bs)"

text \<open>\<^verbatim>\<open>net.resize(size)\<close>: cut, or fill up with default-constructed (empty) tables.\<close>

definition resize_net :: "raw_net \<Rightarrow> nat \<Rightarrow> raw_net" where
  "resize_net nt n = take n nt @ replicate (n - length nt) []"

text \<open>
  \<^verbatim>\<open>for (weight& w : net) in >> w\<close> and \<^verbatim>\<open>for (weight& w : net) out << w\<close>. The two
  stream operators of \<^verbatim>\<open>weight\<close> are parameters: \<open>rd\<close> takes the rest of the stream
  and the table it reads into, and returns the table read and the rest; \<open>wr\<close> returns the
  bytes it writes.
\<close>

fun read_tables ::
  "(byte list \<Rightarrow> raw_table \<Rightarrow> raw_table \<times> byte list) \<Rightarrow> byte list \<Rightarrow> raw_net \<Rightarrow> raw_net" where
  "read_tables rd bs [] = []"
| "read_tables rd bs (w # ws) =
     (case rd bs w of (w', rest) \<Rightarrow> w' # read_tables rd rest ws)"

text \<open>
  \<^verbatim>\<open>load_weights\<close>. The local \<^verbatim>\<open>size\<close> is declared without a value and then read
  into; \<open>size0\<close> is what it holds before the read, which matters only when the file has
  fewer than four bytes. The result is the new value of \<^verbatim>\<open>net\<close>.
\<close>

definition load_weights ::
  "(byte list \<Rightarrow> raw_table \<Rightarrow> raw_table \<times> byte list) \<Rightarrow>
   filesystem \<Rightarrow> string \<Rightarrow> raw_net \<Rightarrow> 32 word \<Rightarrow> fault + raw_net" where
  "load_weights rd fs path nt size0 =
     (case contents fs path of
        None \<Rightarrow> Inl Exit_failure
      | Some bs \<Rightarrow>
          (case stream_read 4 (u32_bytes size0) bs of
             (buf, rest) \<Rightarrow>
               (let size = bytes_u32 buf
                in Inr (read_tables rd rest (resize_net nt (unat size))))))"

definition save_weights ::
  "(raw_table \<Rightarrow> byte list) \<Rightarrow> filesystem \<Rightarrow> string \<Rightarrow> raw_net \<Rightarrow> fault + filesystem" where
  "save_weights wr fs path nt =
     (if \<not> writable fs path then Inl Exit_failure
      else (let size = (word_of_nat (length nt) :: 32 word)
            in Inr (fs\<lparr>contents := (contents fs)(path \<mapsto> u32_bytes size @ concat (map wr nt))\<rparr>)))"

text \<open>
  Modelled from the spec: the stream operators of \<^verbatim>\<open>weight\<close> (\<^verbatim>\<open>weight.h\<close> is not among
  the sources). The spec fixes the layout: each table is "its raw element sequence in
  index order with no padding or length prefix per table (element count is implicitly
  65536)". So writing a table emits its elements, 4 bytes each, and reading one takes
  65536 elements from the stream. The spec does not say what a table holds after a
  stream that ends early: here an element that the stream does not hold in full is zero.
\<close>

definition weight_out :: "raw_table \<Rightarrow> byte list" where
  "weight_out w = concat (map u32_bytes w)"

fun read_elements :: "nat \<Rightarrow> byte list \<Rightarrow> raw_table" where
  "read_elements 0 bs = []"
| "read_elements (Suc n) bs = bytes_u32 (take 4 bs) # read_elements n (drop 4 bs)"

definition weight_in :: "byte list \<Rightarrow> raw_table \<Rightarrow> raw_table \<times> byte list" where
  "weight_in bs w = (read_elements table_size bs, drop (4 * table_size) bs)"

definition wf_raw_net :: "raw_net \<Rightarrow> bool" where
  "wf_raw_net nt = (length nt = 8 \<and> list_all (\<lambda>t. length t = table_size) nt)"

subsection \<open>Concrete inputs\<close>

text \<open>
  A board for the concrete inputs below, since the board class is a parameter: the
  board is its total value, the directions in \<open>ds\<close> are legal and each adds \<open>gain\<close> to the
  value, and the grid after a move is \<open>g\<close> in every direction.
\<close>

definition table_board :: "int list \<Rightarrow> int \<Rightarrow> grid \<Rightarrow> int board_ops" where
  "table_board ds gain g =
     \<lparr>slide = (\<lambda>b op. if op \<in> set ds then (gain, b + gain) else (- 1, b)),
      board_value = (\<lambda>b. b),
      state_plun = (\<lambda>b op. g)\<rparr>"

definition corner_grid :: grid where
  "corner_grid = Grid (Row 1 2 0 0) (Row 3 0 0 0) (Row 0 0 0 0) (Row 0 0 0 15)"

text \<open>
  The arithmetic of the concrete inputs. All numbers that occur in the runs below are
  binary fractions of a few bits (integers, eighths), which binary32 holds exactly and
  on which its sum, difference, product and conversion are exact.
\<close>

definition exact_arith :: float_arith where
  "exact_arith = \<lparr>f_add = (+), f_sub = (-), f_mul = (*), f_of_int = real_of_int\<rparr>"

text \<open>
  A network whose 8 x 65536 entries all hold \<open>w\<close>, and an agent around it (learning rate
  1/8, as the option \<^verbatim>\<open>alpha=0.125\<close> sets it).
\<close>

definition const_net :: "real \<Rightarrow> net" where
  "const_net w = replicate 8 (replicate table_size w)"

definition fresh_agent :: "net \<Rightarrow> agent" where
  "fresh_agent nt = \<lparr>net = nt, alpha = 1 / 8, s_V = 0, train = False, s_tuples = []\<rparr>"

definition decided_agent :: "net \<Rightarrow> real \<Rightarrow> grid \<Rightarrow> real \<Rightarrow> agent" where
  "decided_agent nt al g v = \<lparr>net = nt, alpha = al, s_V = v, train = True, s_tuples = get_tuple g\<rparr>"

text \<open>
  The inputs of the concrete statements. Boards: one with the single legal direction
  2, worth 3, and one where it is worth 10; one with the two legal directions 1 and 3;
  one with no legal direction. Agents: on zero tables, one before its first decision and
  one after a first decision that led to \<open>corner_grid\<close>; one before its first decision
  whose tables hold -1 everywhere (such tables are what \<^verbatim>\<open>load_weights\<close> leaves after
  reading a file that holds them); one whose tables hold 5/8 everywhere, after a
  decision that led to \<open>corner_grid\<close>, so that it carries the estimate 5; and one that
  was constructed without \<^verbatim>\<open>init\<close> and \<^verbatim>\<open>load\<close>, so that it has no table.
\<close>

definition one_move_board :: "int board_ops" where
  "one_move_board = table_board [2] 3 corner_grid"

definition rich_move_board :: "int board_ops" where
  "rich_move_board = table_board [2] 10 corner_grid"

definition two_move_board :: "int board_ops" where
  "two_move_board = table_board [1, 3] 2 corner_grid"

definition stuck_board :: "int board_ops" where
  "stuck_board = table_board [] 0 corner_grid"

definition carried_agent :: agent where
  "carried_agent = decided_agent (const_net 0) (1 / 8) corner_grid 0"

definition fresh_zero_agent :: agent where
  "fresh_zero_agent = fresh_agent (const_net 0)"

definition low_agent :: agent where
  "low_agent = fresh_agent (const_net (- 1))"


definition flush_agent :: agent where
  "flush_agent = decided_agent (const_net (5 / 8)) (1 / 8) corner_grid 5"


definition blank_disk :: filesystem where
  "blank_disk = \<lparr>contents = (\<lambda>p. None), writable = (\<lambda>p. True)\<rparr>"

definition zero_raw_net :: raw_net where
  "zero_raw_net = replicate 8 (replicate table_size 0)"

section \<open>Feature extraction\<close>

lemma get_tuple_closed:
  "get_tuple (Grid (Row a0 a1 a2 a3) (Row b0 b1 b2 b3) (Row c0 c1 c2 c3) (Row d0 d1 d2 d3)) =
     [4096 * a0 + 256 * a1 + 16 * a2 + a3,
      4096 * b0 + 256 * b1 + 16 * b2 + b3,
      4096 * c0 + 256 * c1 + 16 * c2 + c3,
      4096 * d0 + 256 * d1 + 16 * d2 + d3,
      4096 * a0 + 256 * b0 + 16 * c0 + d0,
      4096 * a1 + 256 * b1 + 16 * c1 + d1,
      4096 * a2 + 256 * b2 + 16 * c2 + d2,
      4096 * a3 + 256 * b3 + 16 * c3 + d3]"
  by (simp add: get_tuple_def col_index_def)

lemma get_tuple_ok: "grid_ok g \<Longrightarrow> tuples_ok (get_tuple g)"
proof (cases g)
  case (Grid r0 r1 r2 r3)
  then show "grid_ok g \<Longrightarrow> tuples_ok (get_tuple g)"
    by (cases r0; cases r1; cases r2; cases r3)
       (simp add: grid_ok_def tuples_ok_def get_tuple_closed)
qed

section \<open>The tables: estimate and update loops\<close>


lemma length_net_set: "length (net_set nt i j v) = length nt"
  by (simp add: net_set_def)

lemma length_net_set_nth: "length (net_set nt i j v ! k) = length (nt ! k)"
  by (cases "k = i"; cases "i < length nt") (simp_all add: net_set_def list_update_beyond)

lemma in_table_net_set: "in_table (net_set nt i j v) k l = in_table nt k l"
  by (simp add: in_table_def length_net_set length_net_set_nth)

lemma net_set_nth:
  "k < length nt \<Longrightarrow> l < length (nt ! k) \<Longrightarrow>
   net_set nt i j v ! k ! l = (if k = i \<and> l = nat j then v else nt ! k ! l)"
  by (cases "k = i") (auto simp: net_set_def nth_list_update)

lemma update_loop_Some:
  "\<forall>i \<in> set is. i < length tuples \<and> in_table nt i (tuples ! i) \<Longrightarrow>
   \<exists>nt'. update_loop A nt tuples al target sv is = Some nt'"
  by (induction "is" arbitrary: nt) (simp_all add: in_table_net_set)

lemma update_loop_shape:
  "update_loop A nt tuples al target sv is = Some nt' \<Longrightarrow>
   length nt' = length nt \<and> (\<forall>k. length (nt' ! k) = length (nt ! k))"
proof (induction "is" arbitrary: nt)
  case Nil
  then show ?case by simp
next
  case (Cons i "is")
  then show ?case
    by (auto simp: length_net_set length_net_set_nth split: if_splits)
qed

lemma update_loop_entries:
  "update_loop A nt tuples al target sv is = Some nt' \<Longrightarrow> distinct is \<Longrightarrow>
   k < length nt \<Longrightarrow> l < length (nt ! k) \<Longrightarrow>
   nt' ! k ! l =
     (if k \<in> set is \<and> l = nat (tuples ! k)
      then f_add A (nt ! k ! l) (f_mul A al (f_sub A target sv)) else nt ! k ! l)"
proof (induction "is" arbitrary: nt)
  case Nil
  then show ?case by simp
next
  case (Cons i "is")
  let ?nt1 = "net_set nt i (tuples ! i)
     (f_add A (net_at nt i (tuples ! i)) (f_mul A al (f_sub A target sv)))"
  from Cons.prems(1) have run: "update_loop A ?nt1 tuples al target sv is = Some nt'"
    by (simp split: if_splits)
  have d: "distinct is" and ni: "i \<notin> set is"
    using Cons.prems(2) by simp_all
  have k1: "k < length ?nt1" and l1: "l < length (?nt1 ! k)"
    using Cons.prems(3,4) by (simp_all add: length_net_set length_net_set_nth)
  have "nt' ! k ! l =
     (if k \<in> set is \<and> l = nat (tuples ! k)
      then f_add A (?nt1 ! k ! l) (f_mul A al (f_sub A target sv)) else ?nt1 ! k ! l)"
    by (rule Cons.IH [OF run d k1 l1])
  moreover have "?nt1 ! k ! l =
     (if k = i \<and> l = nat (tuples ! i)
      then f_add A (net_at nt i (tuples ! i)) (f_mul A al (f_sub A target sv))
      else nt ! k ! l)"
    by (rule net_set_nth [OF Cons.prems(3,4)])
  ultimately show ?case
    using ni by (auto simp: net_at_def)
qed

lemma get_V_loop_total:
  "\<forall>i \<in> set is. i < length tuples \<and> in_table nt i (tuples ! i) \<Longrightarrow>
   \<exists>v. get_V_loop A nt tuples is r = Some v"
  by (induction "is" arbitrary: r) simp_all

lemma in_table_wf: "wf_net nt \<Longrightarrow> tuples_ok ts \<Longrightarrow> i < 8 \<Longrightarrow> in_table nt i (ts ! i)"
  by (auto simp: wf_net_def tuples_ok_def in_table_def list_all_length table_size_def)

lemma indices_wf:
  "wf_net nt \<Longrightarrow> tuples_ok ts \<Longrightarrow>
   \<forall>i \<in> set table_indices. i < length ts \<and> in_table nt i (ts ! i)"
  using in_table_wf [of nt ts] by (auto simp: table_indices_def tuples_ok_def)

lemma get_V_wf:
  "wf_net nt \<Longrightarrow> tuples_ok ts \<Longrightarrow> \<exists>v. get_V A nt ts = Some v"
  unfolding get_V_def by (rule get_V_loop_total [OF indices_wf])

section \<open>Feature indices stay inside the tables\<close>

text \<open>
  C5. For every 4 x 4 grid, \<^verbatim>\<open>get_tuple\<close> returns exactly 8 indices, the four rows first
  (row 0 to row 3) and then the four columns (column 0 to column 3), each index being
  4096 d0 + 256 d1 + 16 d2 + d3 for the four cells d0..d3 of that row (left to right)
  or column (top to bottom). As a function of the grid alone it returns the same list on
  every call.
\<close>

theorem get_tuple_layout:
  "get_tuple (Grid (Row a0 a1 a2 a3) (Row b0 b1 b2 b3) (Row c0 c1 c2 c3) (Row d0 d1 d2 d3)) =
     [4096 * a0 + 256 * a1 + 16 * a2 + a3,
      4096 * b0 + 256 * b1 + 16 * b2 + b3,
      4096 * c0 + 256 * c1 + 16 * c2 + c3,
      4096 * d0 + 256 * d1 + 16 * d2 + d3,
      4096 * a0 + 256 * b0 + 16 * c0 + d0,
      4096 * a1 + 256 * b1 + 16 * c1 + d1,
      4096 * a2 + 256 * b2 + 16 * c2 + d2,
      4096 * a3 + 256 * b3 + 16 * c3 + d3] \<and>
   length (get_tuple g) = 8"
proof -
  have "length (get_tuple g) = 8"
  proof (cases g)
    case (Grid r0 r1 r2 r3)
    then show ?thesis
      by (cases r0; cases r1; cases r2; cases r3) (simp add: get_tuple_closed)
  qed
  then show ?thesis
    by (simp add: get_tuple_closed)
qed

lemma update_weight_wf:
  assumes "wf_net (net ag)" and "tuples_ok (s_tuples ag)"
  shows "\<exists>ag'. update_weight A ag t = Some ag'"
proof -
  have "\<exists>nt'. update_loop A (net ag) (s_tuples ag) (alpha ag) t (s_V ag) table_indices = Some nt'"
    using indices_wf [OF assms] by (rule update_loop_Some)
  then show ?thesis
    by (auto simp: update_weight_def)
qed

lemma last_update_wf:
  assumes "wf_net (net ag)" and "tuples_ok (s_tuples ag)"
  shows "\<exists>ag'. last_update A ag = Some ag'"
proof -
  have "\<exists>nt'. update_loop A (net ag) (s_tuples ag) (alpha ag) 0 (s_V ag) table_indices = Some nt'"
    using indices_wf [OF assms] by (rule update_loop_Some)
  then show ?thesis
    by (auto simp: last_update_def)
qed

lemma wf_init_net: "wf_net (init_net [])"
  by (simp add: wf_net_def init_net_def list_all_iff)

lemma wf_const_net: "wf_net (const_net w)"
  by (simp add: wf_net_def const_net_def list_all_iff)

lemma grid_ok_corner: "grid_ok corner_grid"
  by (simp add: grid_ok_def corner_grid_def)

text \<open>
  C6. For every grid whose 16 cells all lie in [0, 15], each of the 8 indices of
  \<^verbatim>\<open>get_tuple\<close> lies in [0, 65535]. Hence, on eight tables of 65536 entries, every
  access \<^verbatim>\<open>net[i][tuples[i]]\<close> is inside its table: \<^verbatim>\<open>get_V\<close> returns a value on these
  tuples, and so do \<^verbatim>\<open>update_weight\<close> and \<^verbatim>\<open>last_update\<close> when the carried tuples were
  produced this way.
\<close>

theorem get_tuple_in_range:
  assumes "grid_ok g" and "wf_net (net ag)"
  shows "list_all (\<lambda>x. 0 \<le> x \<and> x \<le> 65535) (get_tuple g) \<and>
         list_all (\<lambda>i. in_table (net ag) i (get_tuple g ! i)) table_indices \<and>
         get_V A (net ag) (get_tuple g) \<noteq> None \<and>
         (s_tuples ag = get_tuple g \<longrightarrow>
            update_weight A ag target \<noteq> None \<and> last_update A ag \<noteq> None)"
proof -
  have ok: "tuples_ok (get_tuple g)"
    using assms(1) by (rule get_tuple_ok)
  then have "list_all (\<lambda>x. 0 \<le> x \<and> x \<le> 65535) (get_tuple g)"
    by (simp add: tuples_ok_def)
  moreover have "list_all (\<lambda>i. in_table (net ag) i (get_tuple g ! i)) table_indices"
    using indices_wf [OF assms(2) ok] by (simp add: list_all_iff)
  moreover have "get_V A (net ag) (get_tuple g) \<noteq> None"
    using get_V_wf [OF assms(2) ok] by auto
  moreover have "update_weight A ag target \<noteq> None" if "s_tuples ag = get_tuple g"
    using update_weight_wf [where ag = ag and t = target and A = A] assms(2) ok that by auto
  moreover have "last_update A ag \<noteq> None" if "s_tuples ag = get_tuple g"
    using last_update_wf [where ag = ag and A = A] assms(2) ok that by auto
  ultimately show ?thesis by blast
qed

theorem get_tuple_in_range_witness:
  "grid_ok corner_grid \<and> wf_net (net (decided_agent (const_net 0) (1 / 8) corner_grid 0)) \<and>
   list_all (\<lambda>x. 0 \<le> x \<and> x \<le> 65535) (get_tuple corner_grid) \<and>
   get_V exact_arith (net (decided_agent (const_net 0) (1 / 8) corner_grid 0)) (get_tuple corner_grid) \<noteq> None \<and>
   update_weight exact_arith (decided_agent (const_net 0) (1 / 8) corner_grid 0) 3 \<noteq> None \<and>
   last_update exact_arith (decided_agent (const_net 0) (1 / 8) corner_grid 0) \<noteq> None"
proof -
  have g: "grid_ok corner_grid"
    by (simp add: grid_ok_def corner_grid_def)
  have n: "wf_net (net (decided_agent (const_net 0) (1 / 8) corner_grid 0))"
    by (simp add: decided_agent_def wf_net_def const_net_def list_all_iff)
  have s: "s_tuples (decided_agent (const_net 0) (1 / 8) corner_grid 0) = get_tuple corner_grid"
    by (simp add: decided_agent_def)
  show ?thesis
    using get_tuple_in_range [OF g n, where A = exact_arith and target = 3] g n s by simp
qed

section \<open>The search loop\<close>

lemma search_Some:
  "\<forall>op \<in> set ops. legal B before op \<longrightarrow> candidate A B before nt op \<noteq> None \<Longrightarrow>
   \<exists>r. search A B before nt ops best = Some r"
proof (induction ops arbitrary: best)
  case Nil
  then show ?case by simp
next
  case (Cons op ops)
  obtain ob rb where best: "best = (ob, rb)" by (cases best)
  show ?case
  proof (cases "legal B before op")
    case False
    then show ?thesis
      using Cons best by (simp add: legal_def)
  next
    case True
    then obtain c where "candidate A B before nt op = Some c"
      using Cons.prems by auto
    then show ?thesis
      using Cons True best by (simp add: legal_def)
  qed
qed

text \<open>
  What the search returns: the incumbent it started from, or a legal direction of the
  list together with its candidate, which then exceeds the starting value, is at least
  every legal candidate of the list, and exceeds strictly those before it.
\<close>

lemma search_result:
  "search A B before nt ops (ob, rb) = Some (o', r') \<Longrightarrow>
   rb \<le> r' \<and> bounds A B before nt ops r' \<and>
   ((o' = ob \<and> r' = rb) \<or>
    (\<exists>pre post. ops = pre @ o' # post \<and> legal B before o' \<and>
       candidate A B before nt o' = Some r' \<and> rb < r' \<and> beats A B before nt pre r'))"
proof (induction ops arbitrary: ob rb)
  case Nil
  then show ?case by (simp add: bounds_def)
next
  case (Cons op ops)
  show ?case
  proof (cases "legal B before op")
    case False
    with Cons.prems have run: "search A B before nt ops (ob, rb) = Some (o', r')"
      by (simp add: legal_def)
    note ih = Cons.IH [OF run]
    have b: "bounds A B before nt (op # ops) r'"
      using ih False by (simp add: bounds_def)
    from ih have "(o' = ob \<and> r' = rb) \<or>
      (\<exists>pre post. op # ops = pre @ o' # post \<and> legal B before o' \<and>
         candidate A B before nt o' = Some r' \<and> rb < r' \<and> beats A B before nt pre r')"
    proof (elim conjE disjE exE)
      fix pre post
      assume "ops = pre @ o' # post" "legal B before o'" "candidate A B before nt o' = Some r'"
        "rb < r'" "beats A B before nt pre r'"
      then have "op # ops = (op # pre) @ o' # post \<and> legal B before o' \<and>
         candidate A B before nt o' = Some r' \<and> rb < r' \<and> beats A B before nt (op # pre) r'"
        using False by (simp add: beats_def)
      then show ?thesis by blast
    qed simp
    with ih b show ?thesis by blast
  next
    case True
    then obtain c where c: "candidate A B before nt op = Some c"
      using Cons.prems by (auto simp: legal_def split: option.splits)
    show ?thesis
    proof (cases "c > rb")
      case better: True
      with Cons.prems True c have run: "search A B before nt ops (op, c) = Some (o', r')"
        by (simp add: legal_def)
      note ih = Cons.IH [OF run]
      have b: "bounds A B before nt (op # ops) r'"
        using ih c by (simp add: bounds_def)
      from ih have "\<exists>pre post. op # ops = pre @ o' # post \<and> legal B before o' \<and>
         candidate A B before nt o' = Some r' \<and> rb < r' \<and> beats A B before nt pre r'"
      proof (elim conjE disjE exE)
        assume "o' = op" "r' = c"
        then have "op # ops = [] @ o' # ops \<and> legal B before o' \<and>
          candidate A B before nt o' = Some r' \<and> rb < r' \<and> beats A B before nt [] r'"
          using True c better by (simp add: beats_def)
        then show ?thesis by blast
      next
        fix pre post
        assume "ops = pre @ o' # post" "legal B before o'" "candidate A B before nt o' = Some r'"
          "c < r'" "beats A B before nt pre r'"
        then have "op # ops = (op # pre) @ o' # post \<and> legal B before o' \<and>
           candidate A B before nt o' = Some r' \<and> rb < r' \<and> beats A B before nt (op # pre) r'"
          using c better by (simp add: beats_def)
        then show ?thesis by blast
      qed
      moreover have "rb \<le> r'" using ih better by simp
      ultimately show ?thesis using b by blast
    next
      case worse: False
      with Cons.prems True c have run: "search A B before nt ops (ob, rb) = Some (o', r')"
        by (simp add: legal_def)
      note ih = Cons.IH [OF run]
      have b: "bounds A B before nt (op # ops) r'"
        using ih c worse by (simp add: bounds_def)
      from ih have "(o' = ob \<and> r' = rb) \<or>
        (\<exists>pre post. op # ops = pre @ o' # post \<and> legal B before o' \<and>
           candidate A B before nt o' = Some r' \<and> rb < r' \<and> beats A B before nt pre r')"
      proof (elim conjE disjE exE)
        fix pre post
        assume "ops = pre @ o' # post" "legal B before o'" "candidate A B before nt o' = Some r'"
          "rb < r'" "beats A B before nt pre r'"
        then have "op # ops = (op # pre) @ o' # post \<and> legal B before o' \<and>
           candidate A B before nt o' = Some r' \<and> rb < r' \<and> beats A B before nt (op # pre) r'"
          using c worse by (simp add: beats_def)
        then show ?thesis by blast
      qed simp
      with ih b show ?thesis by blast
    qed
  qed
qed

lemma search_none_legal:
  "\<forall>op \<in> set ops. \<not> legal B before op \<Longrightarrow> search A B before nt ops best = Some best"
proof (induction ops)
  case Nil
  then show ?case by simp
next
  case (Cons op ops)
  then show ?case by (cases best) (simp add: legal_def)
qed

section \<open>The decision routine\<close>

lemma take_action_SomeD:
  assumes "take_action A B before ag = Some (a, ag')"
  obtains ob rb ag1 v where
    "search A B before (net ag) opcode (- 1, - 1) = Some (ob, rb)"
    "(if train ag then update_weight A ag rb else Some ag) = Some ag1"
    "get_V A (net ag1) (get_tuple (state_plun B before ob)) = Some v"
    "ag' = ag1\<lparr>s_tuples := get_tuple (state_plun B before ob), s_V := v, train := True\<rparr>"
    "a = (if ob \<noteq> - 1 then action_slide ob else action_none)"
proof -
  obtain ob rb where s: "search A B before (net ag) opcode (- 1, - 1) = Some (ob, rb)"
    using assms by (auto simp: take_action_def split: option.splits)
  obtain ag1 where u: "(if train ag then update_weight A ag rb else Some ag) = Some ag1"
    using assms s by (auto simp: take_action_def split: option.splits)
  obtain v where v: "get_V A (net ag1) (get_tuple (state_plun B before ob)) = Some v"
    using assms s u by (auto simp: take_action_def Let_def split: option.splits)
  have "ag' = ag1\<lparr>s_tuples := get_tuple (state_plun B before ob), s_V := v, train := True\<rparr>"
    and "a = (if ob \<noteq> - 1 then action_slide ob else action_none)"
    using assms s u v by (auto simp: take_action_def Let_def)
  with s u v show thesis
    by (rule that)
qed

lemma update_weight_SomeD:
  "update_weight A ag t = Some ag1 \<Longrightarrow>
   \<exists>nt'. update_loop A (net ag) (s_tuples ag) (alpha ag) t (s_V ag) table_indices = Some nt' \<and>
         ag1 = ag\<lparr>net := nt'\<rparr>"
  by (auto simp: update_weight_def split: option.splits)

lemma last_update_SomeD:
  "last_update A ag = Some ag1 \<Longrightarrow>
   \<exists>nt'. update_loop A (net ag) (s_tuples ag) (alpha ag) 0 (s_V ag) table_indices = Some nt' \<and>
         ag1 = ag\<lparr>net := nt'\<rparr>"
  by (auto simp: last_update_def split: option.splits)

lemma update_loop_wf:
  assumes "update_loop A nt tuples al target sv is = Some nt'" and "wf_net nt"
  shows "wf_net nt'"
  using update_loop_shape [OF assms(1)] assms(2)
  by (simp add: wf_net_def list_all_length)

lemma distinct_table_indices: "distinct table_indices"
  by (simp add: table_indices_def)

lemma set_table_indices: "i \<in> set table_indices \<longleftrightarrow> i < 8"
  by (auto simp: table_indices_def)

text \<open>The entries after one of the two update loops, on well-formed tables and tuples.\<close>

lemma update_loop_net_at:
  assumes run: "update_loop A nt ts al target sv table_indices = Some nt'"
    and wf: "wf_net nt" and ok: "tuples_ok ts"
    and i: "i < 8" and j: "0 \<le> j" "j \<le> 65535"
  shows "net_at nt' i j =
           (if j = ts ! i then f_add A (net_at nt i j) (f_mul A al (f_sub A target sv))
            else net_at nt i j)"
proof -
  have k: "i < length nt" and l: "nat j < length (nt ! i)"
    using wf i j by (simp_all add: wf_net_def list_all_length table_size_def)
  have t: "0 \<le> ts ! i"
    using ok i by (simp add: tuples_ok_def list_all_length)
  have "nat j = nat (ts ! i) \<longleftrightarrow> j = ts ! i"
    using j t by auto
  then show ?thesis
    using update_loop_entries [OF run distinct_table_indices k l] i
    by (simp add: net_at_def set_table_indices)
qed

lemma candidate_defined:
  "wf_net nt \<Longrightarrow> grid_ok (state_plun B before op) \<Longrightarrow> candidate A B before nt op \<noteq> None"
  using get_V_wf [OF _ get_tuple_ok, where nt = nt and g1 = "state_plun B before op" and A = A]
  by (auto simp: candidate_def)

lemma search_op_best:
  "search A B before nt ops (ob, rb) = Some (o', r') \<Longrightarrow> o' = ob \<or> o' \<in> set ops"
  using search_result [where A = A and B = B and before = before and nt = nt and ops = ops
      and ob = ob and rb = rb and o' = o' and r' = r'] by auto

lemma take_action_defined:
  assumes "agent_ok ag" and "board_ok B before"
  shows "\<exists>a ag'. take_action A B before ag = Some (a, ag')"
proof -
  have wf: "wf_net (net ag)"
    using assms(1) by (simp add: agent_ok_def)
  have g: "grid_ok (state_plun B before op)" if "op = - 1 \<or> op \<in> set opcode" for op
    using assms(2) that by (auto simp: board_ok_def list_all_iff)
  have "\<forall>op \<in> set opcode. legal B before op \<longrightarrow> candidate A B before (net ag) op \<noteq> None"
    using candidate_defined [OF wf g] by blast
  from search_Some [OF this] obtain ob rb
    where s: "search A B before (net ag) opcode (- 1, - 1) = Some (ob, rb)"
    by (metis surj_pair)
  have ob: "ob = - 1 \<or> ob \<in> set opcode"
    using search_op_best [OF s] .
  have "\<exists>ag1. (if train ag then update_weight A ag rb else Some ag) = Some ag1"
  proof (cases "train ag")
    case True
    then have "tuples_ok (s_tuples ag)"
      using assms(1) by (simp add: agent_ok_def)
    with True update_weight_wf [OF wf, where t = rb and A = A] show ?thesis by simp
  next
    case False
    then show ?thesis by simp
  qed
  then obtain ag1 where u: "(if train ag then update_weight A ag rb else Some ag) = Some ag1" ..
  have wf1: "wf_net (net ag1)"
  proof (cases "train ag")
    case True
    with u update_weight_SomeD [where ag = ag and t = rb and A = A] obtain nt'
      where "update_loop A (net ag) (s_tuples ag) (alpha ag) rb (s_V ag) table_indices = Some nt'"
        and "ag1 = ag\<lparr>net := nt'\<rparr>"
      by auto
    then show ?thesis
      using update_loop_wf [OF _ wf] by simp
  next
    case False
    with u wf show ?thesis by simp
  qed
  obtain v where v: "get_V A (net ag1) (get_tuple (state_plun B before ob)) = Some v"
    using get_V_wf [OF wf1 get_tuple_ok [OF g [OF ob]]] by blast
  show ?thesis
    using s u v by (simp add: take_action_def)
qed

section \<open>Evaluation at the concrete inputs\<close>

lemmas eval_defs = exact_arith_def take_action_def opcode_def table_board_def candidate_def get_V_def
  table_indices_def corner_grid_def get_tuple_closed in_table_def net_at_def
  net_set_def const_net_def table_size_def update_weight_def last_update_def
  decided_agent_def fresh_agent_def slide_reward_def legal_def

text \<open>Where the three operations of an update are exact, the update is the exact one.\<close>

lemma exact_update:
  "f_add exact_arith w (f_mul exact_arith al (f_sub exact_arith target sv)) =
     w + al * (target - sv)"
  by (simp add: exact_arith_def)

lemma agent_ok_carried: "agent_ok carried_agent"
  using wf_const_net [of 0] get_tuple_ok [OF grid_ok_corner]
  by (simp add: agent_ok_def carried_agent_def decided_agent_def)

lemma agent_ok_flush: "agent_ok flush_agent"
  using wf_const_net [of "5 / 8"] get_tuple_ok [OF grid_ok_corner]
  by (simp add: agent_ok_def flush_agent_def decided_agent_def)

lemma agent_ok_low: "agent_ok low_agent"
  using wf_const_net [of "- 1"] by (simp add: agent_ok_def low_agent_def fresh_agent_def)

lemma board_ok_table: "grid_ok g \<Longrightarrow> board_ok (table_board ds gain g) b"
  by (simp add: board_ok_def table_board_def opcode_def)

lemma board_ok_one_move: "board_ok one_move_board 0"
  unfolding one_move_board_def by (rule board_ok_table [OF grid_ok_corner])

lemma board_ok_stuck: "board_ok stuck_board 0"
  unfolding stuck_board_def by (rule board_ok_table [OF grid_ok_corner])

section \<open>The claims about take_action\<close>

lemma take_action_net:
  assumes "take_action A B before ag = Some (a, ag')"
  shows "\<exists>ob rb. search A B before (net ag) opcode (- 1, - 1) = Some (ob, rb) \<and>
     a = (if ob \<noteq> - 1 then action_slide ob else action_none) \<and>
     (train ag \<longrightarrow>
        update_loop A (net ag) (s_tuples ag) (alpha ag) rb (s_V ag) table_indices = Some (net ag')) \<and>
     (\<not> train ag \<longrightarrow> net ag' = net ag)"
proof -
  from assms obtain ob rb ag1 v where
    s: "search A B before (net ag) opcode (- 1, - 1) = Some (ob, rb)" and
    u: "(if train ag then update_weight A ag rb else Some ag) = Some ag1" and
    ag': "ag' = ag1\<lparr>s_tuples := get_tuple (state_plun B before ob), s_V := v, train := True\<rparr>" and
    a: "a = (if ob \<noteq> - 1 then action_slide ob else action_none)"
    by (rule take_action_SomeD)
  have n: "net ag' = net ag1"
    using ag' by simp
  have "update_loop A (net ag) (s_tuples ag) (alpha ag) rb (s_V ag) table_indices = Some (net ag')"
    if "train ag"
    using that u n update_weight_SomeD [where ag = ag and t = rb and A = A] by auto
  moreover have "net ag' = net ag" if "\<not> train ag"
    using that u n by simp
  ultimately show ?thesis
    using s a by blast
qed

text \<open>
  C10. One call of \<^verbatim>\<open>take_action\<close> on well-formed tables changes no table entry other
  than the eight entries \<^verbatim>\<open>net[i][s_tuples[i]]\<close>, i = 0..7, at the indices carried from
  the previous call, and changes none at all on a first call; the tables keep their
  number and sizes. The board is passed by const reference and the routine only slides
  copies of it: in the embedding the board is an argument that the result does not
  contain.
\<close>

theorem take_action_frame:
  assumes "agent_ok ag" and "board_ok B before"
  shows "\<exists>a ag'. take_action A B before ag = Some (a, ag') \<and> wf_net (net ag') \<and>
           (\<forall>i j. i < 8 \<and> 0 \<le> j \<and> j \<le> 65535 \<and> \<not> (train ag \<and> j = s_tuples ag ! i) \<longrightarrow>
                  net_at (net ag') i j = net_at (net ag) i j)"
proof -
  obtain a ag' where t: "take_action A B before ag = Some (a, ag')"
    using take_action_defined [OF assms] by blast
  have wf: "wf_net (net ag)"
    using assms(1) by (simp add: agent_ok_def)
  from take_action_net [OF t] obtain rb where
    u: "train ag \<longrightarrow>
       update_loop A (net ag) (s_tuples ag) (alpha ag) rb (s_V ag) table_indices = Some (net ag')"
    and k: "\<not> train ag \<longrightarrow> net ag' = net ag"
    by blast
  show ?thesis
  proof (cases "train ag")
    case True
    then have ok: "tuples_ok (s_tuples ag)"
      using assms(1) by (simp add: agent_ok_def)
    have "wf_net (net ag')"
      using update_loop_wf [OF u [rule_format, OF True] wf] .
    moreover have "net_at (net ag') i j = net_at (net ag) i j"
      if "i < 8" "0 \<le> j" "j \<le> 65535" "j \<noteq> s_tuples ag ! i" for i j
      using update_loop_net_at [OF u [rule_format, OF True] wf ok that(1,2,3)] that(4) by simp
    ultimately show ?thesis
      using t True by auto
  next
    case False
    then show ?thesis
      using t k wf by auto
  qed
qed

theorem take_action_frame_witness:
  "agent_ok carried_agent \<and> board_ok one_move_board 0 \<and> train carried_agent \<and>
   (\<exists>a ag'. take_action exact_arith one_move_board 0 carried_agent = Some (a, ag') \<and> wf_net (net ag') \<and>
      (\<forall>i j. i < 8 \<and> 0 \<le> j \<and> j \<le> 65535 \<and>
             \<not> (train carried_agent \<and> j = s_tuples carried_agent ! i) \<longrightarrow>
             net_at (net ag') i j = net_at (net carried_agent) i j))"
proof -
  have "train carried_agent"
    by (simp add: carried_agent_def decided_agent_def)
  then show ?thesis
    using take_action_frame [OF agent_ok_carried board_ok_one_move]
      agent_ok_carried board_ok_one_move by simp
qed

section \<open>Selection and temporal-difference update\<close>

lemma take_action_search:
  assumes "take_action A B before ag = Some (a, ag')"
  shows "\<exists>ob rb. search A B before (net ag) opcode (- 1, - 1) = Some (ob, rb) \<and>
     a = (if ob \<noteq> - 1 then action_slide ob else action_none)"
  using take_action_net [OF assms] by blast

lemma minus_one_not_opcode: "d \<in> set opcode \<Longrightarrow> d \<noteq> - 1"
  by (auto simp: opcode_def)

text \<open>
  The selection rule of the code, for the record: a returned direction is legal, its
  candidate exceeds -1 and is at least every legal candidate, and strictly above the
  legal candidates of the directions scanned before it.
\<close>

lemma take_action_selects:
  assumes "take_action A B before ag = Some (action_slide d, ag')"
  shows "\<exists>pre post c. opcode = pre @ d # post \<and> legal B before d \<and>
           candidate A B before (net ag) d = Some c \<and> - 1 < c \<and>
           bounds A B before (net ag) opcode c \<and> beats A B before (net ag) pre c"
proof -
  from take_action_search [OF assms] obtain ob rb where
    s: "search A B before (net ag) opcode (- 1, - 1) = Some (ob, rb)" and
    a: "action_slide d = (if ob \<noteq> - 1 then action_slide ob else action_none)"
    by blast
  from a have ob: "ob \<noteq> - 1" "ob = d"
    by (auto split: if_splits)
  from search_result [OF s] ob show ?thesis
    by auto
qed

lemma take_action_slides:
  assumes "agent_ok ag" and "board_ok B before"
    and "op \<in> set opcode" and "legal B before op"
    and "candidate A B before (net ag) op = Some c" and "- 1 < c"
  shows "\<exists>d ag'. take_action A B before ag = Some (action_slide d, ag')"
proof -
  obtain a ag' where t: "take_action A B before ag = Some (a, ag')"
    using take_action_defined [OF assms(1,2)] by blast
  from take_action_search [OF t] obtain ob rb where
    s: "search A B before (net ag) opcode (- 1, - 1) = Some (ob, rb)" and
    a: "a = (if ob \<noteq> - 1 then action_slide ob else action_none)"
    by blast
  note r = search_result [OF s]
  from r assms(3,4,5) have "c \<le> rb"
    by (auto simp: bounds_def)
  with assms(6) have "rb \<noteq> - 1" by simp
  with r obtain pre post where "opcode = pre @ ob # post" by auto
  then have "ob \<in> set opcode" by (metis in_set_conv_decomp)
  then have "ob \<noteq> - 1" by (rule minus_one_not_opcode)
  with a t show ?thesis by auto
qed

text \<open>With no legal direction the routine returns the null action.\<close>

lemma take_action_no_legal:
  assumes "agent_ok ag" and "board_ok B before"
    and "\<forall>op \<in> set opcode. \<not> legal B before op"
  shows "\<exists>ag'. take_action A B before ag = Some (action_none, ag')"
proof -
  obtain a ag' where t: "take_action A B before ag = Some (a, ag')"
    using take_action_defined [OF assms(1,2)] by blast
  from take_action_search [OF t] obtain ob rb where
    s: "search A B before (net ag) opcode (- 1, - 1) = Some (ob, rb)" and
    a: "a = (if ob \<noteq> - 1 then action_slide ob else action_none)"
    by blast
  have "ob = - 1"
    using search_none_legal [OF assms(3), where nt = "net ag" and best = "(- 1, - 1)" and A = A] s
    by simp
  with a t show ?thesis by simp
qed

text \<open>
  C2, as amended. On well-formed tables \<^verbatim>\<open>take_action\<close> returns, and: on a first call
  (\<^verbatim>\<open>train\<close> not set) the tables are unchanged; on every later call each entry
  \<^verbatim>\<open>net[i][s_tuples[i]]\<close>, i = 0..7, at the tuples carried from the previous call, is
  replaced by the float value of \<^verbatim>\<open>net[i][s_tuples[i]] + alpha * (r_V_best - s_V)\<close>: the
  float sum of the entry and the float product of \<^verbatim>\<open>alpha\<close> with the float difference of
  \<^verbatim>\<open>r_V_best\<close> and the carried estimate \<^verbatim>\<open>s_V\<close>, whatever these three operations
  round to. Here \<^verbatim>\<open>r_V_best\<close> is the value the search ends with: the candidate of the
  returned direction, which no legal candidate exceeds, when a slide action is returned,
  and the starting value -1 of the search when no direction is legal.
\<close>

theorem take_action_td_update:
  assumes "agent_ok ag" and "board_ok B before"
  shows "\<exists>a ag' r_V_best. take_action A B before ag = Some (a, ag') \<and>
     (\<not> train ag \<longrightarrow> net ag' = net ag) \<and>
     (train ag \<longrightarrow>
        (\<forall>i<8. net_at (net ag') i (s_tuples ag ! i) =
                 f_add A (net_at (net ag) i (s_tuples ag ! i))
                   (f_mul A (alpha ag) (f_sub A r_V_best (s_V ag))))) \<and>
     (\<forall>d. a = action_slide d \<longrightarrow>
          candidate A B before (net ag) d = Some r_V_best \<and> bounds A B before (net ag) opcode r_V_best) \<and>
     ((\<forall>op \<in> set opcode. \<not> legal B before op) \<longrightarrow> r_V_best = - 1)"
proof -
  obtain a ag' where t: "take_action A B before ag = Some (a, ag')"
    using take_action_defined [OF assms] by blast
  have wf: "wf_net (net ag)"
    using assms(1) by (simp add: agent_ok_def)
  from take_action_net [OF t] obtain ob rb where
    s: "search A B before (net ag) opcode (- 1, - 1) = Some (ob, rb)" and
    a: "a = (if ob \<noteq> - 1 then action_slide ob else action_none)" and
    u: "train ag \<longrightarrow>
       update_loop A (net ag) (s_tuples ag) (alpha ag) rb (s_V ag) table_indices = Some (net ag')" and
    k: "\<not> train ag \<longrightarrow> net ag' = net ag"
    by blast
  have upd: "net_at (net ag') i (s_tuples ag ! i) =
      f_add A (net_at (net ag) i (s_tuples ag ! i)) (f_mul A (alpha ag) (f_sub A rb (s_V ag)))"
    if "train ag" and i: "i < 8" for i
  proof -
    have ok: "tuples_ok (s_tuples ag)"
      using assms(1) that(1) by (simp add: agent_ok_def)
    then have "0 \<le> s_tuples ag ! i" "s_tuples ag ! i \<le> 65535"
      using i by (simp_all add: tuples_ok_def list_all_length)
    from update_loop_net_at [OF u [rule_format, OF that(1)] wf ok i this]
    show ?thesis by simp
  qed
  have sl: "candidate A B before (net ag) d = Some rb \<and> bounds A B before (net ag) opcode rb"
    if "a = action_slide d" for d
  proof -
    from that a have "ob \<noteq> - 1" "ob = d"
      by (auto split: if_splits)
    with search_result [OF s] show ?thesis by auto
  qed
  have nl: "rb = - 1" if "\<forall>op \<in> set opcode. \<not> legal B before op"
    using search_none_legal [OF that, where nt = "net ag" and best = "(- 1, - 1)" and A = A] s
    by simp
  show ?thesis
    using t k upd sl nl by blast
qed

theorem take_action_td_update_witness:
  "agent_ok carried_agent \<and> board_ok one_move_board 0 \<and> train carried_agent \<and>
   (\<exists>a ag' r_V_best. take_action exact_arith one_move_board 0 carried_agent = Some (a, ag') \<and>
     (\<not> train carried_agent \<longrightarrow> net ag' = net carried_agent) \<and>
     (train carried_agent \<longrightarrow>
        (\<forall>i<8. net_at (net ag') i (s_tuples carried_agent ! i) =
                 f_add exact_arith (net_at (net carried_agent) i (s_tuples carried_agent ! i))
                   (f_mul exact_arith (alpha carried_agent)
                      (f_sub exact_arith r_V_best (s_V carried_agent))))) \<and>
     (\<forall>d. a = action_slide d \<longrightarrow>
          candidate exact_arith one_move_board 0 (net carried_agent) d = Some r_V_best \<and>
          bounds exact_arith one_move_board 0 (net carried_agent) opcode r_V_best) \<and>
     ((\<forall>op \<in> set opcode. \<not> legal one_move_board 0 op) \<longrightarrow> r_V_best = - 1))"
proof -
  have "train carried_agent"
    by (simp add: carried_agent_def decided_agent_def)
  then show ?thesis
    using take_action_td_update [OF agent_ok_carried board_ok_one_move]
      agent_ok_carried board_ok_one_move by blast
qed

text \<open>
  C2 as stated fails: on a board with no legal direction there is no candidate at all,
  and the call still changes the carried entries, here entry 4608 of table 0 from 0 to
  -1/8, that is by \<^verbatim>\<open>alpha * (-1 - s_V)\<close> with \<^verbatim>\<open>alpha\<close> = 1/8 and \<^verbatim>\<open>s_V\<close> = 0.
\<close>

theorem take_action_td_update_counterexample:
  "\<not> legal stuck_board 0 0 \<and> \<not> legal stuck_board 0 1 \<and>
   \<not> legal stuck_board 0 2 \<and> \<not> legal stuck_board 0 3 \<and>
   train carried_agent \<and> s_tuples carried_agent ! 0 = 4608 \<and>
   take_action exact_arith stuck_board 0 carried_agent \<noteq> None \<and>
   fst (the (take_action exact_arith stuck_board 0 carried_agent)) = action_none \<and>
   net_at (net carried_agent) 0 4608 = 0 \<and>
   net_at (net (snd (the (take_action exact_arith stuck_board 0 carried_agent)))) 0 4608 = - (1 / 8)"
  by (simp add: eval_defs stuck_board_def carried_agent_def)

section \<open>The state carried to the next call\<close>

text \<open>
  C8, as amended. After a call of \<^verbatim>\<open>take_action\<close> that returns the slide action of
  direction d, the carried state is set (\<^verbatim>\<open>train\<close>), the carried tuples are the feature
  tuples of d's afterstate grid, and the carried estimate is the estimate of those tuples
  on the tables as they are after this call's update (lines 116-120 recompute it once
  the update is done). On a first call, which updates nothing, this is the estimate the
  search used for d's candidate.
\<close>

theorem take_action_carried_state:
  assumes "take_action A B before ag = Some (action_slide d, ag')"
  shows "train ag' \<and> s_tuples ag' = get_tuple (state_plun B before d) \<and>
         get_V A (net ag') (s_tuples ag') = Some (s_V ag') \<and>
         (\<not> train ag \<longrightarrow> get_V A (net ag) (s_tuples ag') = Some (s_V ag'))"
proof -
  from assms obtain ob rb ag1 v where
    u: "(if train ag then update_weight A ag rb else Some ag) = Some ag1" and
    v: "get_V A (net ag1) (get_tuple (state_plun B before ob)) = Some v" and
    ag': "ag' = ag1\<lparr>s_tuples := get_tuple (state_plun B before ob), s_V := v, train := True\<rparr>" and
    a: "action_slide d = (if ob \<noteq> - 1 then action_slide ob else action_none)"
    by (rule take_action_SomeD)
  from a have ob: "ob = d"
    by (auto split: if_splits)
  have "ag1 = ag" if "\<not> train ag"
    using u that by simp
  then show ?thesis
    using v ag' ob by auto
qed

theorem take_action_carried_state_witness:
  "take_action exact_arith one_move_board 0 fresh_zero_agent =
     Some (action_slide 2, snd (the (take_action exact_arith one_move_board 0 fresh_zero_agent))) \<and>
   \<not> train fresh_zero_agent \<and>
   train (snd (the (take_action exact_arith one_move_board 0 fresh_zero_agent))) \<and>
   s_tuples (snd (the (take_action exact_arith one_move_board 0 fresh_zero_agent))) =
     get_tuple (state_plun one_move_board 0 2) \<and>
   get_V exact_arith (net (snd (the (take_action exact_arith one_move_board 0 fresh_zero_agent))))
     (s_tuples (snd (the (take_action exact_arith one_move_board 0 fresh_zero_agent)))) =
     Some (s_V (snd (the (take_action exact_arith one_move_board 0 fresh_zero_agent)))) \<and>
   get_V exact_arith (net fresh_zero_agent) (s_tuples (snd (the (take_action exact_arith one_move_board 0 fresh_zero_agent)))) =
     Some (s_V (snd (the (take_action exact_arith one_move_board 0 fresh_zero_agent))))"
proof -
  have d: "take_action exact_arith one_move_board 0 fresh_zero_agent \<noteq> None"
    and a: "fst (the (take_action exact_arith one_move_board 0 fresh_zero_agent)) = action_slide 2"
    and n: "\<not> train fresh_zero_agent"
    by (simp_all add: eval_defs one_move_board_def fresh_zero_agent_def)
  have h: "take_action exact_arith one_move_board 0 fresh_zero_agent =
     Some (action_slide 2, snd (the (take_action exact_arith one_move_board 0 fresh_zero_agent)))"
    using d a by (metis option.collapse prod.collapse)
  show ?thesis
    using take_action_carried_state [OF h] h n by blast
qed

text \<open>
  C8 as stated fails: the agent carries the tuples of the grid that the one legal
  direction, 2, leads to again. The search estimates that afterstate at 0 (candidate 3),
  the update then raises the eight carried entries by 3/8 each, and the estimate that
  is carried on is 3, taken from the updated tables.
\<close>

theorem take_action_carried_state_counterexample:
  "take_action exact_arith one_move_board 0 carried_agent \<noteq> None \<and>
   fst (the (take_action exact_arith one_move_board 0 carried_agent)) = action_slide 2 \<and>
   get_V exact_arith (net carried_agent) (get_tuple (state_plun one_move_board 0 2)) = Some 0 \<and>
   candidate exact_arith one_move_board 0 (net carried_agent) 2 = Some 3 \<and>
   s_V (snd (the (take_action exact_arith one_move_board 0 carried_agent))) = 3"
  by (simp add: eval_defs one_move_board_def carried_agent_def)

section \<open>The terminal flush, and directions the search passes over\<close>

text \<open>
  C4, as amended. With well-formed tables and carried tuples \<^verbatim>\<open>last_update\<close> returns,
  and each entry \<^verbatim>\<open>net[i][s_tuples[i]]\<close>, i = 0..7, is replaced by the float value of
  \<^verbatim>\<open>net[i][s_tuples[i]] + alpha * (0 - s_V)\<close>: the float sum of the entry and the float
  product of \<^verbatim>\<open>alpha\<close> with the float difference of 0 and the carried estimate, whatever
  these three operations round to (a drop by \<^verbatim>\<open>alpha * s_V\<close> where they are exact).
  Nothing else of the agent changes: the flag \<^verbatim>\<open>train\<close>, the carried tuples and the
  carried estimate stay as they were, so the next \<^verbatim>\<open>take_action\<close> is not a first turn.
\<close>

theorem last_update_flush:
  assumes "wf_net (net ag)" and "tuples_ok (s_tuples ag)"
  shows "\<exists>ag'. last_update A ag = Some ag' \<and>
           (\<forall>i<8. net_at (net ag') i (s_tuples ag ! i) =
                    f_add A (net_at (net ag) i (s_tuples ag ! i))
                      (f_mul A (alpha ag) (f_sub A 0 (s_V ag)))) \<and>
           train ag' = train ag \<and> s_tuples ag' = s_tuples ag \<and> s_V ag' = s_V ag \<and>
           alpha ag' = alpha ag"
proof -
  obtain ag' where l: "last_update A ag = Some ag'"
    using last_update_wf [OF assms] by blast
  from last_update_SomeD [OF l] obtain nt' where
    u: "update_loop A (net ag) (s_tuples ag) (alpha ag) 0 (s_V ag) table_indices = Some nt'" and
    ag': "ag' = ag\<lparr>net := nt'\<rparr>"
    by blast
  have "net_at nt' i (s_tuples ag ! i) =
      f_add A (net_at (net ag) i (s_tuples ag ! i)) (f_mul A (alpha ag) (f_sub A 0 (s_V ag)))"
    if i: "i < 8" for i
  proof -
    have "0 \<le> s_tuples ag ! i" "s_tuples ag ! i \<le> 65535"
      using assms(2) i by (simp_all add: tuples_ok_def list_all_length)
    from update_loop_net_at [OF u assms i this] show ?thesis
      by simp
  qed
  then show ?thesis
    using l ag' by simp
qed

theorem last_update_flush_witness:
  "wf_net (net flush_agent) \<and> tuples_ok (s_tuples flush_agent) \<and>
   (\<exists>ag'. last_update exact_arith flush_agent = Some ag' \<and>
           (\<forall>i<8. net_at (net ag') i (s_tuples flush_agent ! i) =
                    f_add exact_arith (net_at (net flush_agent) i (s_tuples flush_agent ! i))
                      (f_mul exact_arith (alpha flush_agent)
                         (f_sub exact_arith 0 (s_V flush_agent)))) \<and>
           train ag' = train flush_agent \<and> s_tuples ag' = s_tuples flush_agent \<and>
           s_V ag' = s_V flush_agent \<and> alpha ag' = alpha flush_agent)"
proof -
  have w: "wf_net (net flush_agent)" and t: "tuples_ok (s_tuples flush_agent)"
    using agent_ok_flush by (simp_all add: agent_ok_def flush_agent_def decided_agent_def)
  show ?thesis
    using last_update_flush [OF w t] w t by blast
qed

text \<open>
  C4 as stated fails in its second half: after the flush of an agent that carries the
  estimate 5, \<^verbatim>\<open>train\<close> is still set and the estimate 5 is still carried (entry 4608 of
  table 0 went from 5/8 to 0); the next \<^verbatim>\<open>take_action\<close>, on a board whose one legal
  direction has candidate 10, then moves that entry to 5/8, an update by
  \<^verbatim>\<open>alpha * (10 - 5)\<close> from the flushed state.
\<close>

theorem last_update_flush_counterexample:
  "last_update exact_arith flush_agent \<noteq> None \<and>
   train (the (last_update exact_arith flush_agent)) \<and>
   s_V (the (last_update exact_arith flush_agent)) = 5 \<and>
   get_V exact_arith (net flush_agent) (s_tuples flush_agent) = Some 5 \<and>
   net_at (net flush_agent) 0 4608 = 5 / 8 \<and>
   net_at (net (the (last_update exact_arith flush_agent))) 0 4608 = 0 \<and>
   candidate exact_arith rich_move_board 0 (net (the (last_update exact_arith flush_agent))) 2 = Some 10 \<and>
   take_action exact_arith rich_move_board 0 (the (last_update exact_arith flush_agent)) \<noteq> None \<and>
   net_at (net (snd (the (take_action exact_arith rich_move_board 0 (the (last_update exact_arith flush_agent)))))) 0 4608 =
     5 / 8"
  by (simp add: eval_defs rich_move_board_def flush_agent_def)

text \<open>
  C3: the code returns the null action although a direction is legal. Direction 2 is
  legal on the board, its candidate is 3 + (-8) = -5 on tables that hold -1 everywhere,
  which does not exceed the starting value -1 of the search, and \<^verbatim>\<open>take_action\<close>
  returns the null action. Every value of the run is an integer between -8 and 3, so
  each float operation of the run is exact.
\<close>

theorem take_action_null_despite_legal:
  "legal one_move_board 0 2 \<and>
   candidate exact_arith one_move_board 0 (net low_agent) 2 = Some (- 5) \<and>
   take_action exact_arith one_move_board 0 low_agent \<noteq> None \<and>
   fst (the (take_action exact_arith one_move_board 0 low_agent)) = action_none"
  by (simp add: eval_defs one_move_board_def low_agent_def)

text \<open>
  C1: the code does not return the maximizing direction when no candidate exceeds -1.
  Directions 1 and 3 are the legal ones, both with candidate 2 + (-8) = -6, so the
  direction of the claim is 1; \<^verbatim>\<open>take_action\<close> returns the null action. Every value
  of the run is an integer between -8 and 2, so each float operation of the run is exact.
\<close>

theorem take_action_misses_maximum:
  "\<not> legal two_move_board 0 0 \<and> legal two_move_board 0 1 \<and>
   \<not> legal two_move_board 0 2 \<and> legal two_move_board 0 3 \<and>
   candidate exact_arith two_move_board 0 (net low_agent) 1 = Some (- 6) \<and>
   candidate exact_arith two_move_board 0 (net low_agent) 3 = Some (- 6) \<and>
   take_action exact_arith two_move_board 0 low_agent \<noteq> None \<and>
   fst (the (take_action exact_arith two_move_board 0 low_agent)) = action_none"
  by (simp add: eval_defs two_move_board_def low_agent_def)

section \<open>Persistence\<close>

lemma length_u32_bytes: "length (u32_bytes w) = 4"
  by (simp add: u32_bytes_def)

lemma bytes_u32_u32_bytes: "bytes_u32 (u32_bytes w) = w"
  unfolding u32_bytes_def bytes_u32.simps
proof (rule bit_word_eqI)
  fix n :: nat
  assume "n < LENGTH(32)"
  then have n: "n < 32" by simp
  consider "n < 8" | "8 \<le> n" "n < 16" | "16 \<le> n" "n < 24" | "24 \<le> n" "n < 32"
    using n by linarith
  then show "bit (ucast (ucast w :: byte) OR push_bit 8 (ucast (ucast (drop_bit 8 w) :: byte)) OR
        push_bit 16 (ucast (ucast (drop_bit 16 w) :: byte)) OR
        push_bit 24 (ucast (ucast (drop_bit 24 w) :: byte)) :: 32 word) n = bit w n"
    by cases (auto simp: bit_simps)
qed

lemma length_weight_out: "length (weight_out w) = 4 * length w"
  by (induction w) (simp_all add: weight_out_def length_u32_bytes)

lemma weight_out_Cons: "weight_out (x # w) = u32_bytes x @ weight_out w"
  by (simp add: weight_out_def)

lemma read_elements_out: "read_elements (length w) (weight_out w @ rest) = w"
  by (induction w) (simp_all add: weight_out_Cons length_u32_bytes bytes_u32_u32_bytes)

lemma weight_in_out:
  "length w = table_size \<Longrightarrow> weight_in (weight_out w @ rest) w0 = (w, rest)"
  using read_elements_out [of w rest] by (simp add: weight_in_def length_weight_out)

lemma read_tables_out:
  "list_all (\<lambda>t. length t = table_size) nt \<Longrightarrow> length ws = length nt \<Longrightarrow>
   read_tables weight_in (concat (map weight_out nt) @ rest) ws = nt"
proof (induction nt arbitrary: ws)
  case Nil
  then show ?case by simp
next
  case (Cons t nt)
  then obtain w ws' where ws: "ws = w # ws'" "length ws' = length nt"
    by (cases ws) auto
  have "weight_in (weight_out t @ concat (map weight_out nt) @ rest) w =
          (t, concat (map weight_out nt) @ rest)"
    using Cons.prems(1) by (simp add: weight_in_out)
  moreover have "read_tables weight_in (concat (map weight_out nt) @ rest) ws' = nt"
    using Cons.IH [of ws'] Cons.prems(1) ws(2) by simp
  ultimately show ?case
    using ws(1) by simp
qed

lemma length_resize_net: "length (resize_net nt n) = n"
  by (simp add: resize_net_def)

lemma stream_read_full:
  "length buf = length xs \<Longrightarrow> stream_read (length xs) buf (xs @ rest) = (xs, rest)"
  by (simp add: stream_read_def)

text \<open>
  C7. For a network of 8 tables of 65536 entries each, \<^verbatim>\<open>save_weights\<close> to a path that
  can be opened for writing, followed by \<^verbatim>\<open>load_weights\<close> from that path into any
  network (a fresh one in particular), yields the tables that were saved: the same
  number of tables and the same entries, bit for bit and in the same order. The stream
  operators of \<^verbatim>\<open>weight\<close> are the ones modelled from the layout that the spec fixes.
\<close>

theorem save_load_roundtrip:
  assumes "writable fs path" and "wf_raw_net nt"
  shows "\<exists>fs'. save_weights weight_out fs path nt = Inr fs' \<and>
               load_weights weight_in fs' path fresh size0 = Inr nt"
proof -
  let ?bs = "u32_bytes (word_of_nat (length nt)) @ concat (map weight_out nt)"
  let ?fs' = "fs\<lparr>contents := (contents fs)(path \<mapsto> ?bs)\<rparr>"
  have n: "length nt = 8" and t: "list_all (\<lambda>t. length t = table_size) nt"
    using assms(2) by (simp_all add: wf_raw_net_def)
  have s: "save_weights weight_out fs path nt = Inr ?fs'"
    using assms(1) by (simp add: save_weights_def)
  have c: "contents ?fs' path = Some ?bs"
    by simp
  have r: "stream_read 4 (u32_bytes size0) ?bs =
      (u32_bytes (word_of_nat (length nt)), concat (map weight_out nt) @ [])"
    using stream_read_full [of "u32_bytes size0" "u32_bytes (word_of_nat (length nt))"
        "concat (map weight_out nt)"]
    by (simp add: length_u32_bytes)
  have size: "unat (bytes_u32 (u32_bytes (word_of_nat (length nt) :: 32 word))) = 8"
    by (simp add: bytes_u32_u32_bytes n)
  have "read_tables weight_in (concat (map weight_out nt) @ []) (resize_net fresh 8) = nt"
    using t by (rule read_tables_out) (simp add: length_resize_net n)
  then have "load_weights weight_in ?fs' path fresh size0 = Inr nt"
    unfolding load_weights_def c using r size by (simp add: Let_def)
  with s show ?thesis by blast
qed

theorem save_load_roundtrip_witness:
  "writable blank_disk ''weights.bin'' \<and> wf_raw_net zero_raw_net \<and>
   (\<exists>fs'. save_weights weight_out blank_disk ''weights.bin'' zero_raw_net = Inr fs' \<and>
          load_weights weight_in fs' ''weights.bin'' [] 0 = Inr zero_raw_net)"
proof -
  have w: "writable blank_disk ''weights.bin''"
    by (simp add: blank_disk_def)
  have n: "wf_raw_net zero_raw_net"
    by (simp add: wf_raw_net_def zero_raw_net_def list_all_iff)
  show ?thesis
    using save_load_roundtrip [OF w n, where fresh = "[]" and ?size0.0 = 0] w n by blast
qed

section \<open>Outcomes: exit, return, and accesses outside a vector\<close>










end
